theory Spec2Isabelle
  imports Complex_Main "HOL-Library.Multiset"
begin

section \<open>Marker management (marker\_manager.py)\<close>

text \<open>
  Times are Python floats; they are modelled as real numbers, so that rounding of the
  floating-point subtraction and the values NaN and infinity are outside the model.
\<close>

record marker_manager =
  markers :: "real list"
  excluded_splits :: "(real \<times> real) list"
  audio_filename :: "string option"
  audio_duration :: real

text \<open>\<open>MarkerManager.__init__\<close>\<close>

definition init_manager :: marker_manager where
  "init_manager =
     \<lparr>markers = [], excluded_splits = [], audio_filename = None, audio_duration = 0\<rparr>"

text \<open>The literal \<open>tolerance = 0.01\<close> of \<open>add_marker\<close> (10 ms).\<close>

definition add_tolerance :: real where
  "add_tolerance = 1 / 100"

text \<open>
  The search loop shared by \<open>add_marker\<close>, \<open>remove_marker\<close>, \<open>move_marker\<close>:
  the index of the first marker with \<open>abs(marker - time) < tolerance\<close>.
\<close>

fun find_near :: "real list \<Rightarrow> real \<Rightarrow> real \<Rightarrow> nat option" where
  "find_near [] t tol = None"
| "find_near (m # ms) t tol =
     (if \<bar>m - t\<bar> < tol then Some 0
      else (case find_near ms t tol of None \<Rightarrow> None | Some i \<Rightarrow> Some (Suc i)))"

text \<open>\<open>add_marker\<close>: returns the result and the updated object.\<close>

definition add_marker :: "marker_manager \<Rightarrow> real \<Rightarrow> bool \<times> marker_manager" where
  "add_marker st t =
     (case find_near (markers st) t add_tolerance of
        Some i \<Rightarrow> (False, st)
      | None \<Rightarrow> (True, st\<lparr>markers := sort (markers st @ [t])\<rparr>))"

text \<open>
  \<open>remove_marker\<close>: \<open>list.remove\<close> deletes the first element equal to the marker
  found.
\<close>

definition remove_marker :: "marker_manager \<Rightarrow> real \<Rightarrow> real \<Rightarrow> bool \<times> marker_manager" where
  "remove_marker st t tol =
     (case find_near (markers st) t tol of
        Some i \<Rightarrow> (True, st\<lparr>markers := remove1 (markers st ! i) (markers st)\<rparr>)
      | None \<Rightarrow> (False, st))"

text \<open>\<open>move_marker\<close>: overwrite the entry found, then sort.\<close>

definition move_marker ::
  "marker_manager \<Rightarrow> real \<Rightarrow> real \<Rightarrow> real \<Rightarrow> bool \<times> marker_manager" where
  "move_marker st old_time new_time tol =
     (case find_near (markers st) old_time tol of
        Some i \<Rightarrow> (True, st\<lparr>markers := sort ((markers st)[i := new_time])\<rparr>)
      | None \<Rightarrow> (False, st))"

text \<open>
  \<open>_get_splits\<close>: no markers give no splits; otherwise the first split, the middle
  splits for \<open>i\<close> in \<open>range(len(markers) - 1)\<close>, and the last split.
\<close>

definition get_splits :: "marker_manager \<Rightarrow> (real \<times> real) list" where
  "get_splits st =
     (let ms = markers st in
      if ms = [] then []
      else [(0, ms ! 0)]
           @ map (\<lambda>i. (ms ! i, ms ! (i + 1))) [0 ..< length ms - 1]
           @ [(last ms, audio_duration st)])"

subsection \<open>The marker-list invariants\<close>

text \<open>Every pair of markers differs by at least the tolerance.\<close>

fun eps_unique :: "real list \<Rightarrow> bool" where
  "eps_unique [] = True"
| "eps_unique (m # ms) = ((\<forall>y \<in> set ms. add_tolerance \<le> \<bar>m - y\<bar>) \<and> eps_unique ms)"

definition in_range :: "real \<Rightarrow> real list \<Rightarrow> bool" where
  "in_range d ms = (\<forall>m \<in> set ms. 0 \<le> m \<and> m \<le> d)"

definition marker_inv :: "marker_manager \<Rightarrow> bool" where
  "marker_inv st =
     (sorted (markers st) \<and> eps_unique (markers st) \<and> in_range (audio_duration st) (markers st))"

section \<open>Audio export (audio\_processor.py)\<close>

subsection \<open>Python and NumPy primitives\<close>

text \<open>\<open>str(n)\<close> for an integer: decimal digits, with a minus sign for a negative one.\<close>

definition digit_char :: "nat \<Rightarrow> char" where
  "digit_char d = ''0123456789'' ! d"

fun str_nat :: "nat \<Rightarrow> string" where
  "str_nat n = (if n < 10 then [digit_char n] else str_nat (n div 10) @ [digit_char (n mod 10)])"

declare str_nat.simps [simp del]

definition py_str :: "int \<Rightarrow> string" where
  "py_str i = (if i < 0 then CHR ''-'' # str_nat (nat (- i)) else str_nat (nat i))"

text \<open>
  \<open>s.zfill(width)\<close>: a string at least \<open>width\<close> long is returned as it is; otherwise
  zeros are inserted on the left, after a leading sign character.
\<close>

definition zfill :: "string \<Rightarrow> nat \<Rightarrow> string" where
  "zfill s width =
     (if width \<le> length s then s
      else (case s of
              c # r \<Rightarrow>
                if c = CHR ''+'' \<or> c = CHR ''-''
                then c # replicate (width - length s) CHR ''0'' @ r
                else replicate (width - length s) CHR ''0'' @ s
            | [] \<Rightarrow> replicate (width - length s) CHR ''0'' @ s))"

text \<open>\<open>int(x)\<close> on a float truncates towards zero.\<close>

definition py_int :: "real \<Rightarrow> int" where
  "py_int x = (if 0 \<le> x then \<lfloor>x\<rfloor> else \<lceil>x\<rceil>)"


text \<open>
  A basic slice \<open>xs[a:b]\<close>: a negative bound counts from the end, and both bounds are
  clipped to the length.
\<close>

definition slice_bound :: "nat \<Rightarrow> int \<Rightarrow> nat" where
  "slice_bound n a = (let a' = (if a < 0 then a + int n else a) in nat (min (int n) (max 0 a')))"

definition np_slice :: "'a list \<Rightarrow> int \<Rightarrow> int \<Rightarrow> 'a list" where
  "np_slice xs a b =
     (let lo = slice_bound (length xs) a; hi = slice_bound (length xs) b
      in take (hi - lo) (drop lo xs))"

text \<open>\<open>os.path.join\<close> of two components (POSIX).\<close>

definition path_join :: "string \<Rightarrow> string \<Rightarrow> string" where
  "path_join a b =
     (if b \<noteq> [] \<and> hd b = CHR ''/'' then b
      else if a = [] \<or> last a = CHR ''/'' then a @ b
      else a @ ''/'' @ b)"

subsection \<open>The processor and the libraries it calls\<close>

text \<open>The sample buffer: one-dimensional (mono) or channel-major two-dimensional.\<close>

datatype 'a ndarray = Arr1 "'a list" | Arr2 "'a list list"

record 'a audio_processor =
  audio_data :: "'a ndarray option"
  sample_rate :: int
  duration :: real
  channels :: int
  filepath :: "string option"

datatype py_error =
  IndexError | MakedirsFailed | TrimFailed | ResampleFailed | RemixFailed
  | WriteFailed | DecodeFailed | EncodeFailed

text \<open>
  The calls into the operating system, librosa, NumPy, soundfile and pydub are parameters
  of the model. A call that raises is \<open>None\<close> or \<open>False\<close>. \<open>trim_silence_fn\<close> stands
  for \<open>_trim_silence\<close>, whose frame energies are computed by librosa.
\<close>

record 'a libs =
  makedirs :: "string \<Rightarrow> bool"
  trim_silence_fn :: "'a ndarray \<Rightarrow> 'a ndarray option"
  resample :: "'a ndarray \<Rightarrow> int \<Rightarrow> int \<Rightarrow> 'a ndarray option"
  mean_axis0 :: "'a ndarray \<Rightarrow> 'a ndarray option"
  stack_pair :: "'a ndarray \<Rightarrow> 'a ndarray option"
  sf_write :: "string \<Rightarrow> 'a ndarray \<Rightarrow> bool"
  from_wav :: "string \<Rightarrow> bool"
  pydub_export :: "string \<Rightarrow> string \<Rightarrow> string \<Rightarrow> bool"
  exc_str :: "py_error \<Rightarrow> string"

text \<open>
  The file system maps each path that exists to the buffer written there; an encoded
  MP3 or OGG file is represented by the buffer it was encoded from.
\<close>

type_synonym 'a fs = "string \<rightharpoonup> 'a ndarray"

text \<open>\<open>bitrate_map.get(quality, "192k")\<close>\<close>

definition bitrate_of :: "string \<Rightarrow> string" where
  "bitrate_of q =
     (if q = ''low'' then ''128k''
      else if q = ''medium'' then ''192k''
      else if q = ''high'' then ''320k''
      else ''192k'')"

text \<open>
  \<open>_export_audio\<close>: returns the file system and the exception raised, if any. A write
  or an encode that raises is taken to leave no file of its own behind. The transposition
  of the buffer for soundfile does not show in this model.
\<close>

definition export_audio ::
  "'a libs \<Rightarrow> 'a fs \<Rightarrow> 'a ndarray \<Rightarrow> string \<Rightarrow> string \<Rightarrow> string
     \<Rightarrow> 'a fs \<times> py_error option" where
  "export_audio L files audio output_path format q =
     (if format = ''wav'' \<or> format = ''flac'' then
        (if sf_write L output_path audio then (files(output_path \<mapsto> audio), None)
         else (files, Some WriteFailed))
      else
        (let temp_wav = output_path @ ''.temp.wav'' in
         if \<not> sf_write L temp_wav audio then (files, Some WriteFailed)
         else
           (let files1 = files(temp_wav \<mapsto> audio) in
            if \<not> from_wav L temp_wav then (files1, Some DecodeFailed)
            else
              (let bitrate = bitrate_of q in
               if format = ''mp3'' \<or> format = ''ogg'' then
                 (if pydub_export L output_path format bitrate
                  then ((files1(output_path \<mapsto> audio))(temp_wav := None), None)
                  else (files1, Some EncodeFailed))
               else (files1(temp_wav := None), None)))))"

text \<open>The slice of one split out of the buffer, by the processor's own channel count.\<close>

definition extract_segment ::
  "'a audio_processor \<Rightarrow> 'a ndarray \<Rightarrow> int \<Rightarrow> int \<Rightarrow> 'a ndarray option" where
  "extract_segment P buf start_sample end_sample =
     (if 1 < channels P then
        (case buf of
           Arr2 rows \<Rightarrow> Some (Arr2 (map (\<lambda>r. np_slice r start_sample end_sample) rows))
         | Arr1 xs \<Rightarrow> None)
      else
        (case buf of
           Arr1 xs \<Rightarrow> Some (Arr1 (np_slice xs start_sample end_sample))
         | Arr2 rows \<Rightarrow> Some (Arr2 (np_slice rows start_sample end_sample))))"

text \<open>The parameters of \<open>export_splits\<close>.\<close>

record export_params =
  output_folder :: string
  filename_prefix :: string
  output_format :: string
  target_rate :: int
  target_channels :: int
  quality :: string
  trim_silence :: bool

text \<open>Trimming, resampling and remixing of one segment, in the order of the source.\<close>

definition render_segment ::
  "'a libs \<Rightarrow> 'a audio_processor \<Rightarrow> export_params \<Rightarrow> 'a ndarray \<Rightarrow> py_error + 'a ndarray" where
  "render_segment L P E seg =
     (case (if trim_silence E then trim_silence_fn L seg else Some seg) of
        None \<Rightarrow> Inl TrimFailed
      | Some seg1 \<Rightarrow>
          (case (if target_rate E \<noteq> sample_rate P
                 then resample L seg1 (sample_rate P) (target_rate E) else Some seg1) of
             None \<Rightarrow> Inl ResampleFailed
           | Some seg2 \<Rightarrow>
               (case (if target_channels E = 1 \<and> 1 < channels P then mean_axis0 L seg2
                      else if target_channels E = 2 \<and> channels P = 1 then stack_pair L seg2
                      else Some seg2) of
                  None \<Rightarrow> Inl RemixFailed
                | Some seg3 \<Rightarrow> Inr seg3)))"

definition split_filename :: "export_params \<Rightarrow> nat \<Rightarrow> nat \<Rightarrow> string" where
  "split_filename E exported_count num_digits =
     filename_prefix E @ ''_'' @ zfill (py_str (int exported_count)) num_digits
       @ ''.'' @ output_format E"

text \<open>
  One pass of the loop body of \<open>export_splits\<close> for an included split \<open>i\<close>, with
  \<open>exported_count\<close> already incremented: slice, render, name, encode.
\<close>

definition export_one ::
  "'a libs \<Rightarrow> 'a audio_processor \<Rightarrow> export_params \<Rightarrow> 'a ndarray \<Rightarrow> real list \<Rightarrow> nat \<Rightarrow> nat
     \<Rightarrow> 'a fs \<Rightarrow> nat \<Rightarrow> 'a fs \<times> py_error option" where
  "export_one L P E buf tms num_digits i files exported_count =
     (let start_time = tms ! i;
          end_time = tms ! (i + 1);
          start_sample = py_int (start_time * real_of_int (sample_rate P));
          end_sample = py_int (end_time * real_of_int (sample_rate P))
      in case extract_segment P buf start_sample end_sample of
           None \<Rightarrow> (files, Some IndexError)
         | Some segment \<Rightarrow>
             (case render_segment L P E segment of
                Inl e \<Rightarrow> (files, Some e)
              | Inr segment' \<Rightarrow>
                  export_audio L files segment'
                    (path_join (output_folder E) (split_filename E exported_count num_digits))
                    (output_format E) (quality E)))"

text \<open>
  The loop \<open>for i in range(num_splits)\<close>, over the indices still to visit. Its state is
  the file system and \<open>exported_count\<close>; an exception ends it.
\<close>

fun export_loop ::
  "'a libs \<Rightarrow> 'a audio_processor \<Rightarrow> export_params \<Rightarrow> 'a ndarray \<Rightarrow> real list \<Rightarrow> int list
     \<Rightarrow> nat \<Rightarrow> nat list \<Rightarrow> 'a fs \<Rightarrow> nat \<Rightarrow> ('a fs \<times> nat) \<times> py_error option" where
  "export_loop L P E buf tms excluded num_digits [] files exported_count =
     ((files, exported_count), None)"
| "export_loop L P E buf tms excluded num_digits (i # rest) files exported_count =
     (if int i \<in> set excluded
      then export_loop L P E buf tms excluded num_digits rest files exported_count
      else
        (case export_one L P E buf tms num_digits i files (exported_count + 1) of
           (files', Some e) \<Rightarrow> ((files', exported_count + 1), Some e)
         | (files', None) \<Rightarrow>
             export_loop L P E buf tms excluded num_digits rest files' (exported_count + 1)))"

text \<open>
  \<open>export_splits\<close>: the file system afterwards and the returned pair. The excluded
  indices default to the empty list.
\<close>

definition export_splits ::
  "'a libs \<Rightarrow> 'a audio_processor \<Rightarrow> 'a fs \<Rightarrow> real list \<Rightarrow> export_params \<Rightarrow> int list option
     \<Rightarrow> 'a fs \<times> bool \<times> string" where
  "export_splits L P files split_times E excluded_opt =
     (case audio_data P of
        None \<Rightarrow> (files, False, ''No audio loaded'')
      | Some buf \<Rightarrow>
          if \<not> makedirs L (output_folder E)
          then (files, False, ''Error exporting splits: '' @ exc_str L MakedirsFailed)
          else
            (let excluded = (case excluded_opt of None \<Rightarrow> [] | Some xs \<Rightarrow> xs);
                 tms = sort ([0] @ split_times @ [duration P]);
                 num_splits = length tms - 1;
                 num_exported = int num_splits - int (length excluded);
                 num_digits = length (py_str num_exported)
             in case export_loop L P E buf tms excluded num_digits [0 ..< num_splits] files 0 of
                  ((files', n), Some e) \<Rightarrow>
                    (files', False, ''Error exporting splits: '' @ exc_str L e)
                | ((files', n), None) \<Rightarrow>
                    (files', True,
                     ''Exported '' @ py_str num_exported @ '' splits successfully''
                       @ (if excluded \<noteq> []
                          then '' ('' @ py_str (int (length excluded)) @ '' excluded)''
                          else []))))"

subsection \<open>Notions used to state the export properties\<close>

text \<open>Every library call goes through, whatever its arguments.\<close>

definition all_succeed :: "'a libs \<Rightarrow> bool" where
  "all_succeed L =
     ((\<forall>p. makedirs L p) \<and> (\<forall>a. trim_silence_fn L a \<noteq> None)
      \<and> (\<forall>a r r'. resample L a r r' \<noteq> None) \<and> (\<forall>a. mean_axis0 L a \<noteq> None)
      \<and> (\<forall>a. stack_pair L a \<noteq> None) \<and> (\<forall>p a. sf_write L p a)
      \<and> (\<forall>p. from_wav L p) \<and> (\<forall>p f b. pydub_export L p f b))"

text \<open>
  Libraries that succeed and leave the segment as it is (a render with no trim, no
  resampling and no remix needs none of them).
\<close>

definition ok_libs :: "real libs" where
  "ok_libs =
     \<lparr>makedirs = (\<lambda>p. True), trim_silence_fn = Some, resample = (\<lambda>a r r'. Some a),
      mean_axis0 = Some, stack_pair = Some, sf_write = (\<lambda>p a. True),
      from_wav = (\<lambda>p. True), pydub_export = (\<lambda>p f b. True), exc_str = (\<lambda>e. [])\<rparr>"

text \<open>The buffer has the shape that \<open>load_audio\<close> records in \<open>channels\<close>.\<close>

definition shape_ok :: "'a audio_processor \<Rightarrow> bool" where
  "shape_ok P =
     (case audio_data P of
        None \<Rightarrow> False
      | Some (Arr1 xs) \<Rightarrow> channels P = 1
      | Some (Arr2 rows) \<Rightarrow> channels P = int (length rows) \<and> 1 < length rows)"

text \<open>The four formats of the export dialog and of the docstring.\<close>

definition supported_format :: "string \<Rightarrow> bool" where
  "supported_format f = (f = ''wav'' \<or> f = ''flac'' \<or> f = ''mp3'' \<or> f = ''ogg'')"

text \<open>The path of the file with number \<open>j\<close>, the number padded to \<open>w\<close> digits.\<close>

definition out_path :: "export_params \<Rightarrow> nat \<Rightarrow> nat \<Rightarrow> string" where
  "out_path E w j = path_join (output_folder E) (split_filename E j w)"

text \<open>The value of a string of decimal digits.\<close>

definition digit_val :: "char \<Rightarrow> nat" where
  "digit_val c = of_char c - 48"

definition decimal_val :: "string \<Rightarrow> nat" where
  "decimal_val s = foldl (\<lambda>acc c. 10 * acc + digit_val c) 0 s"

text \<open>A split index is included when it is not in the list of excluded indices.\<close>

definition included :: "int list \<Rightarrow> nat \<Rightarrow> bool" where
  "included excluded i = (int i \<notin> set excluded)"

text \<open>
  The rendered segment of split \<open>i\<close>: the slice of the buffer between the truncated
  sample positions of its two boundaries, after trimming, resampling and remixing.
\<close>

definition rendered ::
  "'a libs \<Rightarrow> 'a audio_processor \<Rightarrow> export_params \<Rightarrow> 'a ndarray \<Rightarrow> real list \<Rightarrow> nat
     \<Rightarrow> 'a ndarray option" where
  "rendered L P E buf tms i =
     (case extract_segment P buf (py_int (tms ! i * real_of_int (sample_rate P)))
             (py_int (tms ! (i + 1) * real_of_int (sample_rate P))) of
        None \<Rightarrow> None
      | Some seg \<Rightarrow> (case render_segment L P E seg of Inl e \<Rightarrow> None | Inr seg' \<Rightarrow> Some seg'))"

text \<open>The effect of a successful \<open>_export_audio\<close> on the file system.\<close>

definition write_file :: "string \<Rightarrow> 'a fs \<Rightarrow> string \<Rightarrow> 'a ndarray \<Rightarrow> 'a fs" where
  "write_file format files p a =
     (if format = ''wav'' \<or> format = ''flac'' then files(p \<mapsto> a)
      else (files(p \<mapsto> a))(p @ ''.temp.wav'' := None))"

text \<open>
  What a run of the export loop over the indices \<open>is\<close>, started with the files
  \<open>files\<close> and the count \<open>c\<close>, leaves behind in \<open>files'\<close>: paths other than the
  numbered outputs (and, for MP3 and OGG, their temporary files) are untouched, the file
  numbered for an included index holds its rendered segment, every numbered output
  exists, and nothing but the numbered outputs is new.
\<close>

definition loop_post ::
  "'a libs \<Rightarrow> 'a audio_processor \<Rightarrow> export_params \<Rightarrow> 'a ndarray \<Rightarrow> real list \<Rightarrow> int list
     \<Rightarrow> nat \<Rightarrow> nat list \<Rightarrow> 'a fs \<Rightarrow> nat \<Rightarrow> 'a fs \<Rightarrow> bool" where
  "loop_post L P E buf tms excluded w is files c files' =
     (let n = length (filter (included excluded) is);
          lossy = (output_format E \<noteq> ''wav'' \<and> output_format E \<noteq> ''flac'')
      in (\<forall>q. (\<forall>j. c < j \<and> j \<le> c + n \<longrightarrow>
                   q \<noteq> out_path E w j \<and> (lossy \<longrightarrow> q \<noteq> out_path E w j @ ''.temp.wav''))
               \<longrightarrow> files' q = files q)
         \<and> (\<forall>m < length is. included excluded (is ! m) \<longrightarrow>
               files' (out_path E w (c + length (filter (included excluded) (take (Suc m) is))))
                 = rendered L P E buf tms (is ! m))
         \<and> (\<forall>j. c < j \<and> j \<le> c + n \<longrightarrow> out_path E w j \<in> dom files')
         \<and> dom files' \<subseteq> dom files \<union> out_path E w ` {c + 1 .. c + n})"

text \<open>
  A small recording for concrete runs: eight mono samples at 4 Hz (two seconds), exported
  as WAV to the folder \<open>out\<close> with the prefix \<open>s\<close>, with no trim, no resampling and
  no remix.
\<close>

definition example_processor :: "real audio_processor" where
  "example_processor =
     \<lparr>audio_data = Some (Arr1 [10, 11, 12, 13, 14, 15, 16, 17]), sample_rate = 4,
      duration = 2, channels = 1, filepath = None\<rparr>"

definition example_params :: export_params where
  "example_params =
     \<lparr>output_folder = ''out'', filename_prefix = ''s'', output_format = ''wav'',
      target_rate = 4, target_channels = 1, quality = ''high'', trim_silence = False\<rparr>"

section \<open>Silence detection (audio\_processor.py)\<close>

text \<open>
  \<open>librosa.frames_to_time(np.arange(n), sr, hop_length=512)\<close>: frame \<open>i\<close> starts at
  \<open>i * 512 / sr\<close> seconds.
\<close>

definition frames_to_time :: "nat \<Rightarrow> int \<Rightarrow> real list" where
  "frames_to_time n sr = map (\<lambda>i. real (i * 512) / real_of_int sr) [0 ..< n]"

text \<open>
  The loop over \<open>zip(silent_frames, times)\<close>. Its state is \<open>in_silence\<close>,
  \<open>silence_start\<close> and \<open>silent_regions\<close>.
\<close>

fun silence_loop ::
  "real \<Rightarrow> (bool \<times> real) list \<Rightarrow> bool \<Rightarrow> real \<Rightarrow> (real \<times> real) list
     \<Rightarrow> bool \<times> real \<times> (real \<times> real) list" where
  "silence_loop min_silence_duration [] in_silence silence_start silent_regions =
     (in_silence, silence_start, silent_regions)"
| "silence_loop min_silence_duration ((is_silent, t) # rest) in_silence silence_start
     silent_regions =
     (if is_silent \<and> \<not> in_silence then
        silence_loop min_silence_duration rest True t silent_regions
      else if \<not> is_silent \<and> in_silence then
        (let silence_end = t;
             dur = silence_end - silence_start
         in silence_loop min_silence_duration rest False silence_start
              (if min_silence_duration \<le> dur
               then silent_regions @ [(silence_start, silence_end)] else silent_regions))
      else silence_loop min_silence_duration rest in_silence silence_start silent_regions)"

text \<open>The step after the loop: a region still open is closed at the duration.\<close>

definition close_open_region ::
  "real \<Rightarrow> real \<Rightarrow> bool \<times> real \<times> (real \<times> real) list \<Rightarrow> (real \<times> real) list" where
  "close_open_region min_silence_duration dur_total state =
     (case state of
        (in_silence, silence_start, silent_regions) \<Rightarrow>
          if in_silence then
            (let silence_end = dur_total;
                 dur = silence_end - silence_start
             in if min_silence_duration \<le> dur
                then silent_regions @ [(silence_start, silence_end)] else silent_regions)
          else silent_regions)"

text \<open>
  \<open>detect_silence\<close>. The parameter \<open>frame_db\<close> stands for the mono mix and librosa's
  frame energies in dB relative to the loudest frame (\<open>librosa.feature.rms\<close> with frames
  of 2048 samples every 512 samples, then \<open>amplitude_to_db(ref=np.max)\<close>).
\<close>

definition detect_silence ::
  "('a ndarray \<Rightarrow> real list) \<Rightarrow> 'a audio_processor \<Rightarrow> real \<Rightarrow> real \<Rightarrow> (real \<times> real) list" where
  "detect_silence frame_db P threshold_db min_silence_duration =
     (case audio_data P of
        None \<Rightarrow> []
      | Some buf \<Rightarrow>
          (let rms_db = frame_db buf;
               silent_frames = map (\<lambda>d. d < threshold_db) rms_db;
               tms = frames_to_time (length rms_db) (sample_rate P)
           in close_open_region min_silence_duration (duration P)
                (silence_loop min_silence_duration (zip silent_frames tms) False 0 [])))"

subsection \<open>The regions as the specification words them\<close>

text \<open>
  Consecutive silent frames are merged into one region: it starts at the time of the
  first silent frame of the run and ends at the time of the frame that ends the run, or
  at the end of the buffer when the run is still open there.
\<close>

function (sequential) merged_regions :: "(bool \<times> real) list \<Rightarrow> real \<Rightarrow> (real \<times> real) list" where
  "merged_regions [] buffer_end = []"
| "merged_regions ((False, t) # rest) buffer_end = merged_regions rest buffer_end"
| "merged_regions ((True, t) # rest) buffer_end =
     (t, case dropWhile fst rest of [] \<Rightarrow> buffer_end | (b, t') # later \<Rightarrow> t')
       # merged_regions (dropWhile fst rest) buffer_end"
  by pat_completeness auto
termination
  by (relation "measure (\<lambda>(zs, buffer_end). length zs)")
     (auto simp: le_imp_less_Suc length_dropWhile_le)

text \<open>A region is kept only if its duration is at least the minimum.\<close>

definition spec_silent_regions ::
  "real list \<Rightarrow> real list \<Rightarrow> real \<Rightarrow> real \<Rightarrow> real \<Rightarrow> (real \<times> real) list" where
  "spec_silent_regions rms_db tms buffer_end threshold_db min_silence_duration =
     filter (\<lambda>(s, e). min_silence_duration \<le> e - s)
       (merged_regions (zip (map (\<lambda>d. d < threshold_db) rms_db) tms) buffer_end)"

text \<open>Ordered and non-overlapping: each interval ends before the following ones start.\<close>

definition ordered_disjoint :: "(real \<times> real) list \<Rightarrow> bool" where
  "ordered_disjoint rs = sorted_wrt (\<lambda>r1 r2. snd r1 \<le> fst r2) rs"

section \<open>Properties of the marker list\<close>

lemma find_near_None: "find_near ms t tol = None \<longleftrightarrow> (\<forall>m \<in> set ms. \<not> \<bar>m - t\<bar> < tol)"
  by (induction ms) (auto split: option.splits)

lemma find_near_Some:
  "find_near ms t tol = Some i \<Longrightarrow> i < length ms \<and> \<bar>ms ! i - t\<bar> < tol"
  by (induction ms arbitrary: i) (auto split: option.splits if_splits)

lemma eps_unique_append1:
  "eps_unique (ms @ [t]) \<longleftrightarrow> eps_unique ms \<and> (\<forall>y \<in> set ms. add_tolerance \<le> \<bar>y - t\<bar>)"
  by (induction ms) auto

lemma eps_unique_insort:
  "eps_unique (insort t ms) \<longleftrightarrow> eps_unique ms \<and> (\<forall>y \<in> set ms. add_tolerance \<le> \<bar>y - t\<bar>)"
  by (induction ms) (auto simp: set_insort_key abs_minus_commute)

lemma eps_unique_sort: "eps_unique (sort ms) = eps_unique ms"
  by (induction ms) (auto simp: eps_unique_insort abs_minus_commute)

lemma eps_unique_remove1: "eps_unique ms \<Longrightarrow> eps_unique (remove1 x ms)"
  by (induction ms) (auto dest: notin_set_remove1)

lemma in_range_remove1: "in_range d ms \<Longrightarrow> in_range d (remove1 x ms)"
  by (auto simp: in_range_def dest: notin_set_remove1)

lemma in_range_sort: "in_range d (sort ms) = in_range d ms"
  by (simp add: in_range_def)

lemma get_splits_nth:
  assumes "markers st \<noteq> []" and "i \<le> length (markers st)"
  shows "get_splits st ! i =
           (if i = 0 then 0 else markers st ! (i - 1),
            if i = length (markers st) then audio_duration st else markers st ! i)"
proof -
  let ?ms = "markers st"
  let ?mid = "map (\<lambda>i. (?ms ! i, ?ms ! (i + 1))) [0 ..< length ?ms - 1]"
  have gs: "get_splits st = (0, ?ms ! 0) # ?mid @ [(last ?ms, audio_duration st)]"
    using assms(1) by (simp add: get_splits_def Let_def)
  have len: "0 < length ?ms" using assms(1) by simp
  consider "i = 0" | "0 < i" "i < length ?ms" | "0 < i" "i = length ?ms"
    using assms(2) by linarith
  then show ?thesis
  proof cases
    case 1
    then show ?thesis using len by (simp add: gs)
  next
    case 2
    then have lt: "i - 1 < length ?ms - 1" by linarith
    then have "i - 1 < length ?mid" by simp
    then have "(?mid @ [(last ?ms, audio_duration st)]) ! (i - 1) = ?mid ! (i - 1)"
      by (simp only: nth_append if_True)
    also have "\<dots> = (?ms ! (i - 1), ?ms ! i)" using 2 lt by simp
    finally show ?thesis using 2 by (simp add: gs nth_Cons')
  next
    case 3
    then have "(?mid @ [(last ?ms, audio_duration st)]) ! (i - 1) = (last ?ms, audio_duration st)"
      by (simp add: nth_append)
    then show ?thesis using 3 assms(1) by (simp add: gs nth_Cons' last_conv_nth)
  qed
qed

lemma get_splits_length:
  "markers st \<noteq> [] \<Longrightarrow> length (get_splits st) = length (markers st) + 1"
  by (cases "markers st") (simp_all add: get_splits_def Let_def)

section \<open>Claims about the marker list\<close>

text \<open>
  C1, as stated, at no markers: the claim predicts the single split \<open>(0, d)\<close> for
  \<open>k = 0\<close>, but \<open>_get_splits\<close> returns the empty list when there is no marker.
\<close>

theorem get_splits_no_markers_counterexample:
  "get_splits \<lparr>markers = [], excluded_splits = [], audio_filename = None, audio_duration = 10\<rparr> = []
   \<and> length (get_splits \<lparr>markers = [], excluded_splits = [], audio_filename = None,
                            audio_duration = 10\<rparr>) \<noteq> 0 + 1"
  by (simp add: get_splits_def)

text \<open>
  C1 (amended): with no marker \<open>_get_splits\<close> returns no split. With \<open>k \<ge> 1\<close> markers,
  sorted and within \<open>[0, d]\<close>, it returns exactly \<open>k + 1\<close> intervals; the first starts
  at \<open>0\<close>, each ends where the next one starts, the last ends at \<open>d\<close>, and no interval
  ends before it starts (no gap, no overlap).
\<close>

theorem get_splits_partition:
  assumes "sorted (markers st)" and "in_range (audio_duration st) (markers st)"
  shows "if markers st = [] then get_splits st = []
         else length (get_splits st) = length (markers st) + 1
            \<and> fst (get_splits st ! 0) = 0
            \<and> (\<forall>i < length (markers st). snd (get_splits st ! i) = fst (get_splits st ! (i + 1)))
            \<and> snd (get_splits st ! length (markers st)) = audio_duration st
            \<and> (\<forall>i \<le> length (markers st). fst (get_splits st ! i) \<le> snd (get_splits st ! i))"
proof (cases "markers st = []")
  case True
  then show ?thesis by (simp add: get_splits_def)
next
  case False
  let ?ms = "markers st"
  have rng: "\<And>j. j < length ?ms \<Longrightarrow> 0 \<le> ?ms ! j \<and> ?ms ! j \<le> audio_duration st"
    using assms(2) by (simp add: in_range_def)
  have mono: "\<And>j. 0 < j \<Longrightarrow> j < length ?ms \<Longrightarrow> ?ms ! (j - 1) \<le> ?ms ! j"
    using assms(1) by (simp add: sorted_iff_nth_mono)
  have a: "fst (get_splits st ! 0) = 0"
    using False by (simp add: get_splits_nth)
  have b: "\<forall>i < length ?ms. snd (get_splits st ! i) = fst (get_splits st ! (i + 1))"
    using False by (simp add: get_splits_nth)
  have c: "snd (get_splits st ! length ?ms) = audio_duration st"
    using False by (simp add: get_splits_nth)
  have d: "\<forall>i \<le> length ?ms. fst (get_splits st ! i) \<le> snd (get_splits st ! i)"
  proof (intro allI impI)
    fix i assume i: "i \<le> length ?ms"
    show "fst (get_splits st ! i) \<le> snd (get_splits st ! i)"
    proof (cases "i = 0")
      case True
      then show ?thesis using False rng[of 0] by (simp add: get_splits_nth)
    next
      case nz: False
      show ?thesis
      proof (cases "i = length ?ms")
        case True
        then show ?thesis using False nz rng[of "i - 1"] by (simp add: get_splits_nth)
      next
        case F2: False
        then show ?thesis using False nz i mono[of i] by (simp add: get_splits_nth)
      qed
    qed
  qed
  show ?thesis using False a b c d by (simp add: get_splits_length)
qed

theorem get_splits_partition_witness:
  "sorted [2, 5 :: real] \<and> in_range 10 [2, 5]
   \<and> get_splits \<lparr>markers = [2, 5], excluded_splits = [], audio_filename = None,
                   audio_duration = 10\<rparr> = [(0, 2), (2, 5), (5, 10)]
   \<and> length (get_splits \<lparr>markers = [2, 5], excluded_splits = [], audio_filename = None,
                            audio_duration = 10\<rparr>) = 2 + 1"
  using get_splits_partition
    [of "\<lparr>markers = [2, 5], excluded_splits = [], audio_filename = None, audio_duration = 10\<rparr>"]
  by (simp add: in_range_def get_splits_def)

text \<open>
  C9: \<open>add_marker\<close> returns false and changes nothing whenever an existing marker lies
  within 0.01 s of \<open>t\<close>; otherwise it returns true, the new list holds the old markers
  and \<open>t\<close>, and it is sorted. A second add of the same \<open>t\<close> returns false and leaves
  the state of the first add unchanged.
\<close>

theorem add_marker_idempotent:
  "((\<exists>m \<in> set (markers st). \<bar>m - t\<bar> < 1 / 100) \<longrightarrow> add_marker st t = (False, st))
   \<and> ((\<forall>m \<in> set (markers st). \<not> \<bar>m - t\<bar> < 1 / 100) \<longrightarrow>
         fst (add_marker st t) = True
       \<and> snd (add_marker st t) = st\<lparr>markers := sort (markers st @ [t])\<rparr>
       \<and> mset (markers (snd (add_marker st t))) = add_mset t (mset (markers st))
       \<and> sorted (markers (snd (add_marker st t))))
   \<and> add_marker (snd (add_marker st t)) t = (False, snd (add_marker st t))"
proof (cases "find_near (markers st) t add_tolerance")
  case None
  then have far: "\<forall>m \<in> set (markers st). \<not> \<bar>m - t\<bar> < 1 / 100"
    by (simp add: find_near_None add_tolerance_def)
  have am: "add_marker st t = (True, st\<lparr>markers := sort (markers st @ [t])\<rparr>)"
    using None by (simp add: add_marker_def)
  have "find_near (sort (markers st @ [t])) t add_tolerance \<noteq> None"
    by (simp add: find_near_None add_tolerance_def)
  then have "add_marker (st\<lparr>markers := sort (markers st @ [t])\<rparr>) t
             = (False, st\<lparr>markers := sort (markers st @ [t])\<rparr>)"
    by (auto simp: add_marker_def split: option.splits)
  then show ?thesis using far am by simp
next
  case (Some i)
  then have near: "\<exists>m \<in> set (markers st). \<bar>m - t\<bar> < 1 / 100"
    using find_near_Some[OF Some] by (auto simp: add_tolerance_def)
  have "add_marker st t = (False, st)"
    using Some by (simp add: add_marker_def)
  then show ?thesis using near by simp
qed

theorem add_marker_idempotent_witness:
  "add_marker \<lparr>markers = [5], excluded_splits = [], audio_filename = None, audio_duration = 20\<rparr> 3
     = (True, \<lparr>markers = [3, 5], excluded_splits = [], audio_filename = None, audio_duration = 20\<rparr>)
   \<and> add_marker \<lparr>markers = [3, 5], excluded_splits = [], audio_filename = None,
                   audio_duration = 20\<rparr> 3
     = (False, \<lparr>markers = [3, 5], excluded_splits = [], audio_filename = None,
               audio_duration = 20\<rparr>)"
  using add_marker_idempotent
    [of "\<lparr>markers = [5], excluded_splits = [], audio_filename = None, audio_duration = 20\<rparr>" 3]
  by (simp add: add_marker_def add_tolerance_def)

text \<open>
  C10, as stated, fails for \<open>move_marker\<close>: moving the marker at 2 s onto the marker
  at 1 s leaves two equal markers, so uniqueness within 0.01 s is lost.
\<close>

theorem move_marker_breaks_uniqueness_counterexample:
  "marker_inv \<lparr>markers = [1, 2], excluded_splits = [], audio_filename = None, audio_duration = 10\<rparr>
   \<and> move_marker \<lparr>markers = [1, 2], excluded_splits = [], audio_filename = None,
                    audio_duration = 10\<rparr> 2 1 (1 / 10)
       = (True, \<lparr>markers = [1, 1], excluded_splits = [], audio_filename = None,
                 audio_duration = 10\<rparr>)
   \<and> \<not> marker_inv \<lparr>markers = [1, 1], excluded_splits = [], audio_filename = None,
                      audio_duration = 10\<rparr>"
  by (simp add: marker_inv_def in_range_def move_marker_def add_tolerance_def)

text \<open>
  C10 (amended): from a sorted, 0.01 s-unique, in-range marker list, \<open>remove_marker\<close>
  preserves all three invariants; \<open>add_marker\<close> preserves sortedness and uniqueness, and
  range validity when the added time lies in \<open>[0, duration]\<close>; \<open>move_marker\<close> preserves
  sortedness, and range validity when the new time lies in \<open>[0, duration]\<close>. No
  mutation changes the recorded duration.
\<close>

theorem mutations_preserve_invariants:
  assumes "marker_inv st"
  shows "sorted (markers (snd (add_marker st t)))
       \<and> eps_unique (markers (snd (add_marker st t)))
       \<and> (0 \<le> t \<and> t \<le> audio_duration st \<longrightarrow> marker_inv (snd (add_marker st t)))
       \<and> marker_inv (snd (remove_marker st t tol))
       \<and> sorted (markers (snd (move_marker st old_t new_t tol)))
       \<and> (0 \<le> new_t \<and> new_t \<le> audio_duration st \<longrightarrow>
            in_range (audio_duration (snd (move_marker st old_t new_t tol)))
                     (markers (snd (move_marker st old_t new_t tol))))
       \<and> audio_duration (snd (add_marker st t)) = audio_duration st
       \<and> audio_duration (snd (remove_marker st t tol)) = audio_duration st
       \<and> audio_duration (snd (move_marker st old_t new_t tol)) = audio_duration st"
proof -
  have s: "sorted (markers st)" and u: "eps_unique (markers st)"
    and r: "in_range (audio_duration st) (markers st)"
    using assms by (simp_all add: marker_inv_def)
  have add_s: "sorted (markers (snd (add_marker st t)))"
    using s by (simp add: add_marker_def split: option.splits)
  have add_u: "eps_unique (markers (snd (add_marker st t)))"
  proof (cases "find_near (markers st) t add_tolerance")
    case None
    then have "\<forall>y \<in> set (markers st). add_tolerance \<le> \<bar>y - t\<bar>"
      by (auto simp: find_near_None)
    then show ?thesis using None u
      by (simp add: add_marker_def eps_unique_sort eps_unique_append1)
  next
    case (Some i)
    then show ?thesis using u by (simp add: add_marker_def)
  qed
  have add_r: "0 \<le> t \<and> t \<le> audio_duration st \<longrightarrow>
               in_range (audio_duration (snd (add_marker st t))) (markers (snd (add_marker st t)))"
    using r by (auto simp: add_marker_def in_range_def split: option.splits)
  have rem: "marker_inv (snd (remove_marker st t tol))"
    using s u r
    by (auto simp: remove_marker_def marker_inv_def sorted_remove1 eps_unique_remove1
        in_range_remove1 split: option.splits)
  have mv_s: "sorted (markers (snd (move_marker st old_t new_t tol)))"
    using s by (simp add: move_marker_def split: option.splits)
  have mv_r: "0 \<le> new_t \<and> new_t \<le> audio_duration st \<longrightarrow>
            in_range (audio_duration (snd (move_marker st old_t new_t tol)))
                     (markers (snd (move_marker st old_t new_t tol)))"
    using r
    by (auto simp: move_marker_def in_range_def split: option.splits dest!: set_update_subset_insert[THEN subsetD])
  have dur: "audio_duration (snd (add_marker st t)) = audio_duration st"
    "audio_duration (snd (remove_marker st t tol)) = audio_duration st"
    "audio_duration (snd (move_marker st old_t new_t tol)) = audio_duration st"
    by (simp_all add: add_marker_def remove_marker_def move_marker_def split: option.splits)
  show ?thesis
    using add_s add_u add_r rem mv_s mv_r dur by (simp add: marker_inv_def)
qed

theorem mutations_preserve_invariants_witness:
  "marker_inv \<lparr>markers = [1, 2], excluded_splits = [], audio_filename = None, audio_duration = 10\<rparr>
   \<and> marker_inv (snd (add_marker \<lparr>markers = [1, 2], excluded_splits = [], audio_filename = None,
                                  audio_duration = 10\<rparr> 4))
   \<and> snd (add_marker \<lparr>markers = [1, 2], excluded_splits = [], audio_filename = None,
                       audio_duration = 10\<rparr> 4)
       = \<lparr>markers = [1, 2, 4], excluded_splits = [], audio_filename = None, audio_duration = 10\<rparr>"
proof -
  have h: "marker_inv \<lparr>markers = [1, 2], excluded_splits = [], audio_filename = None,
                        audio_duration = 10\<rparr>"
    by (simp add: marker_inv_def in_range_def add_tolerance_def)
  show ?thesis
    using h mutations_preserve_invariants[OF h, of 4]
    by (simp add: add_marker_def add_tolerance_def)
qed

section \<open>Properties of the export\<close>

subsection \<open>Decimal numbers and zero padding\<close>

lemma digit_val_digit_char: "d < 10 \<Longrightarrow> digit_val (digit_char d) = d"
proof -
  assume "d < 10"
  then have "d \<in> {0,1,2,3,4,5,6,7,8,9}" by auto
  then show ?thesis
    by (auto simp: digit_val_def digit_char_def)
qed

lemma digit_char_not_sign: "d < 10 \<Longrightarrow> digit_char d \<noteq> CHR ''+'' \<and> digit_char d \<noteq> CHR ''-''"
proof -
  assume "d < 10"
  then have "d \<in> {0,1,2,3,4,5,6,7,8,9}" by auto
  then show ?thesis
    by (auto simp: digit_char_def)
qed

lemma str_nat_nonempty: "str_nat n \<noteq> []"
  by (subst str_nat.simps) simp

lemma hd_str_nat_not_sign: "hd (str_nat n) \<noteq> CHR ''+'' \<and> hd (str_nat n) \<noteq> CHR ''-''"
proof (induction n rule: str_nat.induct)
  case (1 n)
  show ?case
  proof (cases "n < 10")
    case True
    then show ?thesis using digit_char_not_sign[of n] by (subst (1 2) str_nat.simps) simp
  next
    case False
    then show ?thesis using 1 str_nat_nonempty[of "n div 10"]
      by (subst (1 2) str_nat.simps) simp
  qed
qed

lemma decimal_val_snoc: "decimal_val (s @ [c]) = 10 * decimal_val s + digit_val c"
  by (simp add: decimal_val_def)

lemma decimal_val_str_nat: "decimal_val (str_nat n) = n"
proof (induction n rule: str_nat.induct)
  case (1 n)
  show ?case
  proof (cases "n < 10")
    case True
    then show ?thesis 
      by (subst str_nat.simps) (simp add: decimal_val_def digit_val_digit_char)
  next
    case False
    then show ?thesis using 1
      by (subst str_nat.simps) (simp add: decimal_val_snoc digit_val_digit_char)
  qed
qed

lemma decimal_val_zeros: "decimal_val (replicate k CHR ''0'' @ s) = decimal_val s"
proof -
  have "foldl (\<lambda>acc c. 10 * acc + digit_val c) 0 (replicate k CHR ''0'') = 0"
    by (induction k) (simp_all add: digit_val_def)
  then show ?thesis by (simp add: decimal_val_def)
qed

lemma zfill_str_nat: "zfill (str_nat j) w = replicate (w - length (str_nat j)) CHR ''0'' @ str_nat j"
  using hd_str_nat_not_sign[of j] str_nat_nonempty[of j]
  by (cases "str_nat j") (auto simp: zfill_def)

lemma decimal_val_zfill: "decimal_val (zfill (py_str (int j)) w) = j"
  by (simp add: py_str_def zfill_str_nat decimal_val_zeros decimal_val_str_nat)

lemma length_str_nat_mono: "m \<le> n \<Longrightarrow> length (str_nat m) \<le> length (str_nat n)"
proof (induction n arbitrary: m rule: str_nat.induct)
  case (1 n)
  show ?case
  proof (cases "m < 10")
    case True
    have "1 \<le> length (str_nat n)" using str_nat_nonempty[of n] by (cases "str_nat n") simp_all
    moreover have "length (str_nat m) = 1" using True by (subst str_nat.simps) simp
    ultimately show ?thesis by simp
  next
    case False
    then have n10: "\<not> n < 10" using 1(2) by simp
    have "m div 10 \<le> n div 10" using 1(2) by (rule div_le_mono)
    then have "length (str_nat (m div 10)) \<le> length (str_nat (n div 10))"
      using 1(1)[OF n10] by simp
    then show ?thesis using False n10
      by (subst (1 2) str_nat.simps) simp
  qed
qed

lemma length_zfill_number:
  "j \<le> n \<Longrightarrow> length (zfill (py_str (int j)) (length (py_str (int n)))) = length (py_str (int n))"
  using length_str_nat_mono[of j n]
  by (simp add: py_str_def zfill_str_nat)


subsection \<open>Output paths\<close>

lemma path_join_inject:
  assumes "path_join a (c # r1) = path_join a (c # r2)"
  shows "r1 = r2"
  using assms by (auto simp: path_join_def split: if_splits)

lemma split_filename_inject:
  assumes "out_path E w i = out_path E w j"
  shows "i = j"
proof -
  obtain c r where q: "filename_prefix E @ ''_'' = c # r"
    by (cases "filename_prefix E") auto
  have eq: "\<And>k. split_filename E k w
             = c # (r @ zfill (py_str (int k)) w @ ''.'' @ output_format E)"
    using q by (simp add: split_filename_def)
  have "r @ zfill (py_str (int i)) w @ ''.'' @ output_format E
      = r @ zfill (py_str (int j)) w @ ''.'' @ output_format E"
    using assms unfolding out_path_def eq by (rule path_join_inject)
  then have "zfill (py_str (int i)) w = zfill (py_str (int j)) w" by simp
  then have "decimal_val (zfill (py_str (int i)) w) = decimal_val (zfill (py_str (int j)) w)"
    by simp
  then show ?thesis by (simp only: decimal_val_zfill)
qed

lemma path_join_last: "b \<noteq> [] \<Longrightarrow> last (path_join a b) = last b"
  by (simp add: path_join_def)

lemma last_out_path: "output_format E \<noteq> [] \<Longrightarrow> last (out_path E w j) = last (output_format E)"
  by (simp add: out_path_def path_join_last split_filename_def)

lemma out_path_not_temp:
  assumes "output_format E = ''mp3'' \<or> output_format E = ''ogg''"
  shows "out_path E w i \<noteq> out_path E w j @ ''.temp.wav''"
proof
  assume "out_path E w i = out_path E w j @ ''.temp.wav''"
  then have "last (out_path E w i) = last (out_path E w j @ ''.temp.wav'')" by simp
  then show False using assms last_out_path[of E w i] by auto
qed


subsection \<open>One exported split\<close>

lemma export_audio_ok:
  assumes "all_succeed L" and "supported_format format"
  shows "export_audio L files a p format q = (write_file format files p a, None)"
proof -
  have ne: "p @ ''.temp.wav'' \<noteq> p" by simp
  have tw: "((files(p @ ''.temp.wav'' \<mapsto> a))(p \<mapsto> a))(p @ ''.temp.wav'' := None)
        = (files(p \<mapsto> a))(p @ ''.temp.wav'' := None)"
    using ne by (auto simp: fun_eq_iff)
  have w: "\<And>p a. sf_write L p a" and f: "\<And>p. from_wav L p"
    and e: "\<And>p f b. pydub_export L p f b"
    using assms(1) by (simp_all add: all_succeed_def)
  show ?thesis
  proof (cases "format = ''wav'' \<or> format = ''flac''")
    case True
    then show ?thesis by (simp add: export_audio_def write_file_def w)
  next
    case False
    then have "format = ''mp3'' \<or> format = ''ogg''"
      using assms(2) by (simp add: supported_format_def)
    then show ?thesis using False
      by (simp add: export_audio_def write_file_def w f e tw Let_def)
  qed
qed


lemma extract_segment_ok:
  assumes "shape_ok P" and "audio_data P = Some buf"
  shows "extract_segment P buf a b \<noteq> None"
proof (cases buf)
  case (Arr1 xs)
  then have "channels P = 1" using assms by (simp add: shape_ok_def)
  then show ?thesis using Arr1 by (simp add: extract_segment_def)
next
  case (Arr2 rows)
  then have "1 < channels P" using assms by (simp add: shape_ok_def)
  then show ?thesis using Arr2 by (simp add: extract_segment_def)
qed

lemma render_segment_ok:
  assumes "all_succeed L"
  shows "\<exists>seg'. render_segment L P E seg = Inr seg'"
proof -
  have t: "\<And>a. \<exists>b. trim_silence_fn L a = Some b"
    and r: "\<And>a x y. \<exists>b. resample L a x y = Some b"
    and m: "\<And>a. \<exists>b. mean_axis0 L a = Some b"
    and s: "\<And>a. \<exists>b. stack_pair L a = Some b"
    using assms by (simp_all add: all_succeed_def)
  obtain seg1 where s1: "(if trim_silence E then trim_silence_fn L seg else Some seg) = Some seg1"
    using t[of seg] by (cases "trim_silence E") auto
  obtain seg2 where s2: "(if target_rate E \<noteq> sample_rate P
                 then resample L seg1 (sample_rate P) (target_rate E) else Some seg1) = Some seg2"
    using r[of seg1 "sample_rate P" "target_rate E"] by (cases "target_rate E \<noteq> sample_rate P") auto
  obtain seg3 where s3: "(if target_channels E = 1 \<and> 1 < channels P then mean_axis0 L seg2
                      else if target_channels E = 2 \<and> channels P = 1 then stack_pair L seg2
                      else Some seg2) = Some seg3"
    using m[of seg2] s[of seg2]
    by (cases "target_channels E = 1 \<and> 1 < channels P";
        cases "target_channels E = 2 \<and> channels P = 1") auto
  show ?thesis unfolding render_segment_def s1 option.case s2 s3 by simp
qed

lemma rendered_ok:
  assumes "all_succeed L" and "shape_ok P" and "audio_data P = Some buf"
  shows "\<exists>seg'. rendered L P E buf tms i = Some seg'"
proof -
  obtain seg where seg: "extract_segment P buf (py_int (tms ! i * real_of_int (sample_rate P)))
             (py_int (tms ! (i + 1) * real_of_int (sample_rate P))) = Some seg"
    using extract_segment_ok[OF assms(2,3)] by blast
  obtain seg' where "render_segment L P E seg = Inr seg'"
    using render_segment_ok[OF assms(1)] by blast
  then show ?thesis using seg by (simp add: rendered_def)
qed

lemma export_one_ok:
  assumes "all_succeed L" and "supported_format (output_format E)"
    and "rendered L P E buf tms i = Some seg'"
  shows "export_one L P E buf tms w i files c
         = (write_file (output_format E) files (out_path E w c) seg', None)"
proof -
  obtain seg where seg: "extract_segment P buf (py_int (tms ! i * real_of_int (sample_rate P)))
             (py_int (tms ! (i + 1) * real_of_int (sample_rate P))) = Some seg"
    using assms(3) by (auto simp: rendered_def split: option.splits)
  then have r: "render_segment L P E seg = Inr seg'"
    using assms(3) by (auto simp: rendered_def split: sum.splits)
  show ?thesis
    unfolding export_one_def Let_def seg option.case r sum.case out_path_def[symmetric]
    by (rule export_audio_ok[OF assms(1,2)])
qed


subsection \<open>The export loop\<close>

lemma write_file_same: "write_file format files p a p = Some a"
  by (simp add: write_file_def)

lemma write_file_other:
  assumes "q \<noteq> p"
    and "format \<noteq> ''wav'' \<and> format \<noteq> ''flac'' \<longrightarrow> q \<noteq> p @ ''.temp.wav''"
  shows "write_file format files p a q = files q"
  using assms by (auto simp: write_file_def)

lemma dom_write_file: "dom (write_file format files p a) \<subseteq> insert p (dom files)"
  by (auto simp: write_file_def split: if_splits)

lemma export_loop_excluded:
  "\<not> included excluded i \<Longrightarrow>
   export_loop L P E buf tms excluded w (i # rest) files c
     = export_loop L P E buf tms excluded w rest files c"
  by (simp add: included_def)

lemma export_loop_included:
  assumes "included excluded i"
    and "export_one L P E buf tms w i files (c + 1) = (files1, None)"
  shows "export_loop L P E buf tms excluded w (i # rest) files c
     = export_loop L P E buf tms excluded w rest files1 (c + 1)"
  using assms by (simp add: included_def)

lemma export_loop_ok:
  assumes ok: "all_succeed L" and shape: "shape_ok P" and buf: "audio_data P = Some buf"
    and fmt: "supported_format (output_format E)"
  shows "\<exists>files'. export_loop L P E buf tms excluded w is files c
                    = ((files', c + length (filter (included excluded) is)), None)
                \<and> loop_post L P E buf tms excluded w is files c files'"
proof (induction "is" arbitrary: files c)
  case Nil
  show ?case by (auto simp: loop_post_def)
next
  case (Cons i rest)
  let ?inc = "included excluded"
  let ?lossy = "output_format E \<noteq> ''wav'' \<and> output_format E \<noteq> ''flac''"
  show ?case
  proof (cases "?inc i")
    case False
    obtain files' where run: "export_loop L P E buf tms excluded w rest files c
                    = ((files', c + length (filter ?inc rest)), None)"
      and post: "loop_post L P E buf tms excluded w rest files c files'"
      using Cons.IH[of files c] by blast
    have run': "export_loop L P E buf tms excluded w (i # rest) files c
                 = ((files', c + length (filter ?inc (i # rest))), None)"
      using False run by (simp add: export_loop_excluded del: export_loop.simps)
    have c2: "\<forall>m < length (i # rest). ?inc ((i # rest) ! m) \<longrightarrow>
               files' (out_path E w (c + length (filter ?inc (take (Suc m) (i # rest)))))
                 = rendered L P E buf tms ((i # rest) ! m)"
    proof (intro allI impI)
      fix m assume m: "m < length (i # rest)" and im: "?inc ((i # rest) ! m)"
      then obtain m' where m': "m = Suc m'" using False by (cases m) auto
      then have "m' < length rest" and "?inc (rest ! m')" using m im by simp_all
      then have "files' (out_path E w (c + length (filter ?inc (take (Suc m') rest))))
                 = rendered L P E buf tms (rest ! m')"
        using post by (simp add: loop_post_def Let_def)
      then show "files' (out_path E w (c + length (filter ?inc (take (Suc m) (i # rest)))))
                 = rendered L P E buf tms ((i # rest) ! m)"
        using m' False by simp
    qed
    have "loop_post L P E buf tms excluded w (i # rest) files c files'"
      using post False c2 unfolding loop_post_def Let_def by simp
    then show ?thesis using run' by blast
  next
    case True
    obtain seg' where seg': "rendered L P E buf tms i = Some seg'"
      using rendered_ok[OF ok shape buf] by blast
    let ?p = "out_path E w (c + 1)"
    let ?files1 = "write_file (output_format E) files ?p seg'"
    have one: "export_one L P E buf tms w i files (c + 1) = (?files1, None)"
      by (rule export_one_ok[OF ok fmt seg'])
    obtain files' where run: "export_loop L P E buf tms excluded w rest ?files1 (c + 1)
                    = ((files', c + 1 + length (filter ?inc rest)), None)"
      and post: "loop_post L P E buf tms excluded w rest ?files1 (c + 1) files'"
      using Cons.IH[of ?files1 "c + 1"] by blast
    let ?n = "length (filter ?inc rest)"
    have frame: "\<And>q. (\<forall>j. c + 1 < j \<and> j \<le> c + 1 + ?n \<longrightarrow>
                   q \<noteq> out_path E w j \<and> (?lossy \<longrightarrow> q \<noteq> out_path E w j @ ''.temp.wav''))
               \<Longrightarrow> files' q = ?files1 q"
      using post by (simp add: loop_post_def Let_def)
    have content: "\<And>m. m < length rest \<Longrightarrow> ?inc (rest ! m) \<Longrightarrow>
               files' (out_path E w (c + 1 + length (filter ?inc (take (Suc m) rest))))
                 = rendered L P E buf tms (rest ! m)"
      using post by (simp add: loop_post_def Let_def)
    have domp: "dom files' \<subseteq> dom ?files1 \<union> out_path E w ` {c + 1 + 1 .. c + 1 + ?n}"
      using post by (simp add: loop_post_def Let_def)
    have run': "export_loop L P E buf tms excluded w (i # rest) files c
                 = ((files', c + length (filter ?inc (i # rest))), None)"
      using True run export_loop_included[OF True one] by (simp del: export_loop.simps)
    have lossy_fmt: "?lossy \<Longrightarrow> output_format E = ''mp3'' \<or> output_format E = ''ogg''"
      using fmt by (auto simp: supported_format_def)
    have c1: "\<forall>q. (\<forall>j. c < j \<and> j \<le> c + length (filter ?inc (i # rest)) \<longrightarrow>
                   q \<noteq> out_path E w j \<and> (?lossy \<longrightarrow> q \<noteq> out_path E w j @ ''.temp.wav''))
               \<longrightarrow> files' q = files q"
    proof (intro allI impI)
      fix q
      assume a: "\<forall>j. c < j \<and> j \<le> c + length (filter ?inc (i # rest)) \<longrightarrow>
                   q \<noteq> out_path E w j \<and> (?lossy \<longrightarrow> q \<noteq> out_path E w j @ ''.temp.wav'')"
      have "files' q = ?files1 q"
        by (rule frame) (use a True in auto)
      moreover have "q \<noteq> ?p \<and> (?lossy \<longrightarrow> q \<noteq> ?p @ ''.temp.wav'')"
        using a[rule_format, of "c + 1"] True by simp
      then have "?files1 q = files q"
        by (intro write_file_other) auto
      ultimately show "files' q = files q" by simp
    qed
    have first: "files' ?p = Some seg'"
    proof -
      have "files' ?p = ?files1 ?p"
      proof (rule frame, intro allI impI conjI)
        fix j assume j: "c + 1 < j \<and> j \<le> c + 1 + ?n"
        show "?p \<noteq> out_path E w j"
          using split_filename_inject[of E w "c + 1" j] j by auto
        assume "?lossy"
        then show "?p \<noteq> out_path E w j @ ''.temp.wav''"
          using out_path_not_temp[OF lossy_fmt] by blast
      qed
      then show ?thesis by (simp add: write_file_same)
    qed
    have c2: "\<forall>m < length (i # rest). ?inc ((i # rest) ! m) \<longrightarrow>
               files' (out_path E w (c + length (filter ?inc (take (Suc m) (i # rest)))))
                 = rendered L P E buf tms ((i # rest) ! m)"
    proof (intro allI impI)
      fix m assume m: "m < length (i # rest)" and im: "?inc ((i # rest) ! m)"
      show "files' (out_path E w (c + length (filter ?inc (take (Suc m) (i # rest)))))
                 = rendered L P E buf tms ((i # rest) ! m)"
      proof (cases m)
        case 0
        then show ?thesis using True first seg' by simp
      next
        case (Suc m')
        then have "m' < length rest" and "?inc (rest ! m')" using m im by simp_all
        then have "files' (out_path E w (c + 1 + length (filter ?inc (take (Suc m') rest))))
                 = rendered L P E buf tms (rest ! m')"
          by (rule content)
        then show ?thesis using Suc True by simp
      qed
    qed
    have c3: "dom files' \<subseteq> dom files \<union> out_path E w ` {c + 1 .. c + length (filter ?inc (i # rest))}"
    proof
      fix q assume "q \<in> dom files'"
      then have "q \<in> dom ?files1 \<or> q \<in> out_path E w ` {c + 1 + 1 .. c + 1 + ?n}"
        using domp by blast
      then show "q \<in> dom files \<union> out_path E w ` {c + 1 .. c + length (filter ?inc (i # rest))}"
      proof
        assume "q \<in> dom ?files1"
        then have "q = ?p \<or> q \<in> dom files" using dom_write_file by blast
        then show ?thesis using True by auto
      next
        assume "q \<in> out_path E w ` {c + 1 + 1 .. c + 1 + ?n}"
        then obtain j where "q = out_path E w j" and "c + 1 + 1 \<le> j \<and> j \<le> c + 1 + ?n" by auto
        then show ?thesis using True by auto
      qed
    qed
    have c4: "\<forall>j. c < j \<and> j \<le> c + length (filter ?inc (i # rest)) \<longrightarrow>
                out_path E w j \<in> dom files'"
    proof (intro allI impI)
      fix j assume j: "c < j \<and> j \<le> c + length (filter ?inc (i # rest))"
      show "out_path E w j \<in> dom files'"
      proof (cases "j = c + 1")
        case True
        then show ?thesis using first by auto
      next
        case False
        then have "c + 1 < j \<and> j \<le> c + 1 + ?n" using j True by simp
        then show ?thesis using post by (simp add: loop_post_def Let_def)
      qed
    qed
    have "loop_post L P E buf tms excluded w (i # rest) files c files'"
      unfolding loop_post_def Let_def using c1 c2 c3 c4 by blast
    then show ?thesis using run' by blast
  qed
qed


subsection \<open>The whole export\<close>

lemma count_included:
  assumes "distinct excluded" and "\<forall>e \<in> set excluded. 0 \<le> e \<and> e < int m"
  shows "length (filter (included excluded) [0 ..< m]) = m - length excluded"
proof -
  have "length (filter (included excluded) [0 ..< m])
        = card {i. i < m \<and> included excluded i}"
  proof -
    have "{i. i < m \<and> included excluded ([0 ..< m] ! i)} = {i. i < m \<and> included excluded i}"
      by auto
    then show ?thesis by (simp add: length_filter_conv_card)
  qed
  also have "{i. i < m \<and> included excluded i} = {..<m} - nat ` set excluded"
  proof (intro set_eqI iffI)
    fix i assume "i \<in> {i. i < m \<and> included excluded i}"
    then have i: "i < m" "int i \<notin> set excluded" by (simp_all add: included_def)
    have "i \<notin> nat ` set excluded"
    proof
      assume "i \<in> nat ` set excluded"
      then obtain e where "e \<in> set excluded" "i = nat e" by blast
      then have "int i = e" using assms(2) by auto
      then show False using i(2) \<open>e \<in> set excluded\<close> by simp
    qed
    then show "i \<in> {..<m} - nat ` set excluded" using i(1) by simp
  next
    fix i assume "i \<in> {..<m} - nat ` set excluded"
    then have "i < m" "i \<notin> nat ` set excluded" by simp_all
    then have "int i \<notin> set excluded" by (metis image_eqI nat_int)
    then show "i \<in> {i. i < m \<and> included excluded i}" using \<open>i < m\<close> by (simp add: included_def)
  qed
  also have "card ({..<m} - nat ` set excluded) = card {..<m} - card (nat ` set excluded)"
  proof (rule card_Diff_subset)
    show "finite (nat ` set excluded)" by simp
    show "nat ` set excluded \<subseteq> {..<m}" using assms(2) by auto
  qed
  also have "card (nat ` set excluded) = card (set excluded)"
  proof (rule card_image)
    show "inj_on nat (set excluded)"
    proof (rule inj_onI)
      fix x y assume "x \<in> set excluded" "y \<in> set excluded" "nat x = nat y"
      moreover have "0 \<le> x" "0 \<le> y" using assms(2) calculation(1,2) by auto
      ultimately show "x = y" by linarith
    qed
  qed
  also have "card (set excluded) = length excluded" using assms(1) by (rule distinct_card)
  finally show ?thesis by simp
qed

lemma export_splits_run:
  assumes ok: "all_succeed L" and shape: "shape_ok P" and buf: "audio_data P = Some buf"
    and fmt: "supported_format (output_format E)"
  shows "\<exists>files'.
      export_splits L P files split_times E (Some excluded)
        = (files', True,
           ''Exported '' @ py_str (int (length split_times + 1) - int (length excluded))
             @ '' splits successfully''
             @ (if excluded \<noteq> []
                then '' ('' @ py_str (int (length excluded)) @ '' excluded)'' else []))
    \<and> loop_post L P E buf (sort ([0] @ split_times @ [duration P])) excluded
         (length (py_str (int (length split_times + 1) - int (length excluded))))
         [0 ..< length split_times + 1] files 0 files'"
proof -
  let ?tms = "sort ([0] @ split_times @ [duration P])"
  let ?w = "length (py_str (int (length split_times + 1) - int (length excluded)))"
  have len: "length ?tms - 1 = length split_times + 1" by simp
  obtain files' where run: "export_loop L P E buf ?tms excluded ?w [0 ..< length split_times + 1] files 0
        = ((files', 0 + length (filter (included excluded) [0 ..< length split_times + 1])), None)"
    and post: "loop_post L P E buf ?tms excluded ?w [0 ..< length split_times + 1] files 0 files'"
    using export_loop_ok[OF ok shape buf fmt] by blast
  have mk: "makedirs L (output_folder E)" using ok by (simp add: all_succeed_def)
  have "export_splits L P files split_times E (Some excluded)
        = (files', True,
           ''Exported '' @ py_str (int (length split_times + 1) - int (length excluded))
             @ '' splits successfully''
             @ (if excluded \<noteq> []
                then '' ('' @ py_str (int (length excluded)) @ '' excluded)'' else []))"
    unfolding export_splits_def buf option.case Let_def len
    using mk run by (simp del: export_loop.simps upt_Suc)
  then show ?thesis using post by blast
qed


lemma length_excluded_le:
  assumes "distinct excluded" and "\<forall>e \<in> set excluded. 0 \<le> e \<and> e < int m"
  shows "length excluded \<le> m"
proof -
  have "inj_on nat (set excluded)"
  proof (rule inj_onI)
    fix x y assume "x \<in> set excluded" "y \<in> set excluded" "nat x = nat y"
    moreover have "0 \<le> x" "0 \<le> y" using assms(2) calculation(1,2) by auto
    ultimately show "x = y" by linarith
  qed
  then have "card (nat ` set excluded) = length excluded"
    using assms(1) by (simp add: card_image distinct_card)
  moreover have "nat ` set excluded \<subseteq> {..<m}" using assms(2) by auto
  then have "card (nat ` set excluded) \<le> card {..<m}" by (intro card_mono) simp_all
  ultimately show ?thesis by simp
qed

section \<open>Claims about the export\<close>

text \<open>
  C2: with audio loaded, one of the four supported formats, every library call going
  through, and the excluded indices a duplicate-free list of indices of the \<open>k + 1\<close>
  splits, \<open>export_splits\<close> succeeds and writes exactly \<open>n = k + 1 - |E|\<close> files: the
  paths numbered \<open>1 .. n\<close> all exist afterwards, no other path is new, the \<open>n\<close> paths
  are pairwise different, and each number is padded with zeros to exactly the digit
  width of \<open>n\<close>.
\<close>

theorem export_splits_numbered_files:
  assumes ok: "all_succeed L" and shape: "shape_ok P"
    and fmt: "supported_format (output_format E)"
    and dist: "distinct excluded"
    and rng: "\<forall>e \<in> set excluded. 0 \<le> e \<and> e < int (length split_times + 1)"
    and n: "n = length split_times + 1 - length excluded"
    and w: "w = length (py_str (int n))"
  shows "\<exists>files'.
      export_splits L P files split_times E (Some excluded)
        = (files', True,
           ''Exported '' @ py_str (int n) @ '' splits successfully''
             @ (if excluded \<noteq> []
                then '' ('' @ py_str (int (length excluded)) @ '' excluded)'' else []))
    \<and> (\<forall>j \<in> {1 .. n}. path_join (output_folder E) (split_filename E j w) \<in> dom files')
    \<and> dom files' \<subseteq> dom files \<union> (\<lambda>j. path_join (output_folder E) (split_filename E j w)) ` {1 .. n}
    \<and> card ((\<lambda>j. path_join (output_folder E) (split_filename E j w)) ` {1 .. n}) = n
    \<and> (\<forall>j \<in> {1 .. n}. length (zfill (py_str (int j)) w) = w)"
proof -
  obtain buf where buf: "audio_data P = Some buf"
    using shape by (auto simp: shape_ok_def split: option.splits)
  have le: "length excluded \<le> length split_times + 1"
    using length_excluded_le[OF dist rng] .
  have nint: "int (length split_times + 1) - int (length excluded) = int n"
    using le n by simp
  have cnt: "length (filter (included excluded) [0 ..< length split_times + 1]) = n"
    using count_included[OF dist rng] n by simp
  obtain files' where run: "export_splits L P files split_times E (Some excluded)
        = (files', True,
           ''Exported '' @ py_str (int n) @ '' splits successfully''
             @ (if excluded \<noteq> []
                then '' ('' @ py_str (int (length excluded)) @ '' excluded)'' else []))"
    and post: "loop_post L P E buf (sort ([0] @ split_times @ [duration P])) excluded w
         [0 ..< length split_times + 1] files 0 files'"
    using export_splits_run[OF ok shape buf fmt, of files split_times excluded]
    unfolding nint w by blast
  have ex: "\<forall>j \<in> {1 .. n}. out_path E w j \<in> dom files'"
    using post cnt unfolding loop_post_def Let_def by auto
  have sub: "dom files' \<subseteq> dom files \<union> out_path E w ` {1 .. n}"
    using post cnt unfolding loop_post_def Let_def by auto
  have "inj_on (out_path E w) {1 .. n}"
    by (rule inj_onI) (rule split_filename_inject)
  then have card: "card (out_path E w ` {1 .. n}) = n"
    by (simp add: card_image)
  have pad: "\<forall>j \<in> {1 .. n}. length (zfill (py_str (int j)) w) = w"
    using length_zfill_number w by simp
  have op: "out_path E w = (\<lambda>j. path_join (output_folder E) (split_filename E j w))"
    by (simp add: out_path_def fun_eq_iff)
  show ?thesis
    using run ex sub card pad unfolding op by blast
qed

theorem export_splits_numbered_files_witness:
  "all_succeed ok_libs \<and> shape_ok example_processor
   \<and> supported_format (output_format example_params)
   \<and> distinct [1 :: int] \<and> (0 :: int) \<le> 1 \<and> (1 :: int) < int (length [1 / 2, 1, 3 / 2 :: real] + 1)
   \<and> (\<exists>files'. export_splits ok_libs example_processor Map.empty [1 / 2, 1, 3 / 2] example_params
                   (Some [1])
                 = (files', True, ''Exported 3 splits successfully (1 excluded)'')
          \<and> dom files' = {''out/s_1.wav'', ''out/s_2.wav'', ''out/s_3.wav''})"
proof -
  have a: "all_succeed ok_libs" by (simp add: all_succeed_def ok_libs_def)
  have b: "shape_ok example_processor" by (simp add: shape_ok_def example_processor_def)
  have c: "supported_format (output_format example_params)"
    by (simp add: supported_format_def example_params_def)
  have d: "distinct [1 :: int]" by simp
  have e: "\<forall>e \<in> set [1 :: int]. 0 \<le> e \<and> e < int (length [1 / 2, 1, 3 / 2 :: real] + 1)" by simp
  have n: "(3 :: nat) = length [1 / 2, 1, 3 / 2 :: real] + 1 - length [1 :: int]" by simp
  have w: "(1 :: nat) = length (py_str (int 3))" by code_simp
  have s3: "py_str (int 3) = ''3''" by code_simp
  have s1: "py_str (int (length [1 :: int])) = ''1''" by code_simp
  have p: "(\<lambda>j. path_join (output_folder example_params) (split_filename example_params j 1)) ` {1 .. 3}
           = {''out/s_1.wav'', ''out/s_2.wav'', ''out/s_3.wav''}"
  proof -
    have "{1 .. 3 :: nat} = {1, 2, 3}" by auto
    moreover have "path_join (output_folder example_params) (split_filename example_params 1 1) = ''out/s_1.wav''"
      by code_simp
    moreover have "path_join (output_folder example_params) (split_filename example_params 2 1) = ''out/s_2.wav''"
      by code_simp
    moreover have "path_join (output_folder example_params) (split_filename example_params 3 1) = ''out/s_3.wav''"
      by code_simp
    ultimately show ?thesis by simp
  qed
  obtain files' where run: "export_splits ok_libs example_processor Map.empty [1 / 2, 1, 3 / 2] example_params
                   (Some [1])
                 = (files', True, ''Exported '' @ py_str (int 3) @ '' splits successfully''
             @ (if [1::int] \<noteq> []
                then '' ('' @ py_str (int (length [1::int])) @ '' excluded)'' else []))"
    and ex: "\<forall>j \<in> {1 .. 3}. path_join (output_folder example_params) (split_filename example_params j 1) \<in> dom files'"
    and sub: "dom files' \<subseteq> dom (Map.empty :: real fs) \<union> (\<lambda>j. path_join (output_folder example_params) (split_filename example_params j 1)) ` {1 .. 3}"
    using export_splits_numbered_files[OF a b c d e n w, of Map.empty] by blast
  have "dom files' = {''out/s_1.wav'', ''out/s_2.wav'', ''out/s_3.wav''}"
    using ex sub unfolding p[symmetric] by auto
  moreover have "export_splits ok_libs example_processor Map.empty [1 / 2, 1, 3 / 2] example_params
                   (Some [1]) = (files', True, ''Exported 3 splits successfully (1 excluded)'')"
    using run unfolding s3 s1 by simp
  ultimately show ?thesis using a b c d by auto
qed




text \<open>
  The temporary WAV file of a lossy export is removed when the encode goes through.
\<close>

lemma export_audio_removes_temp_on_success:
  "export_audio ok_libs Map.empty (Arr1 [10, 11]) ''out/s_1.mp3'' ''mp3'' ''high''
   = ([''out/s_1.mp3'' \<mapsto> Arr1 [10, 11]], None)"
  by (simp add: export_audio_def ok_libs_def Let_def fun_eq_iff)

text \<open>
  Whenever the temporary file was written and decoded but the MP3 or OGG encode raises,
  \<open>_export_audio\<close> ends with the temporary file still in place.
\<close>

lemma export_audio_failure_keeps_temp:
  assumes "format = ''mp3'' \<or> format = ''ogg''"
    and "sf_write L (p @ ''.temp.wav'') a" and "from_wav L (p @ ''.temp.wav'')"
    and "\<not> pydub_export L p format (bitrate_of q)"
  shows "export_audio L files a p format q = (files(p @ ''.temp.wav'' \<mapsto> a), Some EncodeFailed)"
  using assms by (auto simp: export_audio_def Let_def)

text \<open>
  C7 at a failing encode: the MP3 encoder raises after the temporary WAV file has been
  written; the call ends with the exception and the temporary file is still there.
\<close>

theorem export_audio_leaves_temp_on_encode_failure:
  "export_audio (ok_libs\<lparr>pydub_export := (\<lambda>p f b. False)\<rparr>) Map.empty (Arr1 [10, 11])
      ''out/s_1.mp3'' ''mp3'' ''high''
   = ([''out/s_1.mp3.temp.wav'' \<mapsto> Arr1 [10, 11]], Some EncodeFailed)"
  by (simp add: export_audio_def ok_libs_def Let_def)

section \<open>Properties of the silence detection\<close>

lemma silence_loop_refines:
  "close_open_region m d (silence_loop m zs False s regs)
     = regs @ filter (\<lambda>(s, e). m \<le> e - s) (merged_regions zs d)"
  "close_open_region m d (silence_loop m zs True s regs)
     = regs @ filter (\<lambda>(s, e). m \<le> e - s)
         ((s, case dropWhile fst zs of [] \<Rightarrow> d | (b, t') # later \<Rightarrow> t')
            # merged_regions (dropWhile fst zs) d)"
proof (induction zs arbitrary: s regs)
  case Nil
  {
    case 1
    show ?case by (simp add: close_open_region_def)
  next
    case 2
    show ?case by (simp add: close_open_region_def)
  }
next
  case (Cons z zs)
  obtain b t where z: "z = (b, t)" by (cases z)
  {
    case 1
    show ?case
    proof (cases b)
      case True
      then show ?thesis using Cons.IH(2)[of t regs] z by simp
    next
      case False
      then show ?thesis using Cons.IH(1)[of s regs] z by simp
    qed
  next
    case 2
    show ?case
    proof (cases b)
      case True
      then show ?thesis using Cons.IH(2)[of s regs] z by simp
    next
      case False
      then show ?thesis
        using Cons.IH(1)[of s "regs @ [(s, t)]"] Cons.IH(1)[of s regs] z
        by (simp add: Let_def)
    qed
  }
qed

lemma merged_regions_starts:
  "r \<in> set (merged_regions zs d) \<Longrightarrow> fst r \<in> snd ` set zs"
proof (induction zs d rule: merged_regions.induct)
  case (1 d)
  then show ?case by simp
next
  case (2 t rest d)
  then show ?case by auto
next
  case (3 t rest d)
  from "3.prems" consider "fst r = t" | "r \<in> set (merged_regions (dropWhile fst rest) d)"
    by auto
  then show ?case
  proof cases
    case 1
    then show ?thesis by simp
  next
    case 2
    then have "fst r \<in> snd ` set (dropWhile fst rest)" by (rule "3.IH")
    then show ?thesis using set_dropWhileD by fastforce
  qed
qed

lemma merged_regions_ordered:
  "sorted_wrt (<) (map snd zs) \<Longrightarrow> ordered_disjoint (merged_regions zs d)"
proof (induction zs d rule: merged_regions.induct)
  case (1 d)
  then show ?case by (simp add: ordered_disjoint_def)
next
  case (2 t rest d)
  then show ?case by simp
next
  case (3 t rest d)
  have suffix: "dropWhile fst rest = drop (length (takeWhile fst rest)) rest"
    by (rule dropWhile_eq_drop)
  have srt_rest: "sorted_wrt (<) (map snd rest)" using "3.prems" by simp
  then have srt: "sorted_wrt (<) (map snd (dropWhile fst rest))"
    unfolding suffix by (simp add: sorted_wrt_drop drop_map[symmetric])
  then have ih: "ordered_disjoint (merged_regions (dropWhile fst rest) d)" by (rule "3.IH")
  have first: "\<forall>r \<in> set (merged_regions (dropWhile fst rest) d).
                 (case dropWhile fst rest of [] \<Rightarrow> d | (b, t') # later \<Rightarrow> t') \<le> fst r"
  proof (cases "dropWhile fst rest")
    case Nil
    show ?thesis unfolding Nil by simp
  next
    case (Cons z later)
    obtain b t' where z: "z = (b, t')" by (cases z)
    have "dropWhile fst rest \<noteq> []" using Cons by simp
    then have "\<not> fst (hd (dropWhile fst rest))" by (rule hd_dropWhile)
    then have b: "\<not> b" using Cons z by simp
    have lt: "\<forall>x \<in> set later. t' < snd x" using srt Cons z by auto
    show ?thesis
    proof
      fix r assume "r \<in> set (merged_regions (dropWhile fst rest) d)"
      then have "r \<in> set (merged_regions later d)" using Cons z b by simp
      then have "fst r \<in> snd ` set later" by (rule merged_regions_starts)
      then have "t' < fst r" using lt by auto
      then show "(case dropWhile fst rest of [] \<Rightarrow> d | (b, t') # later \<Rightarrow> t') \<le> fst r"
        using Cons z by simp
    qed
  qed
  show ?case using ih first by (simp add: ordered_disjoint_def)
qed

lemma frames_to_time_increasing:
  assumes "0 < sr"
  shows "sorted_wrt (<) (frames_to_time n sr)"
proof -
  have "\<And>i j. i < j \<Longrightarrow> real (i * 512) / real_of_int sr < real (j * 512) / real_of_int sr"
    using assms by (simp add: divide_strict_right_mono)
  then show ?thesis
    unfolding frames_to_time_def by (simp add: sorted_wrt_iff_nth_less)
qed

text \<open>
  C6: \<open>detect_silence\<close> returns exactly the regions of the specification: the frames
  whose dB value lies below the threshold are silent, consecutive silent frames are
  merged into one region, a region still open at the end of the buffer is closed at the
  duration, and a region is kept if and only if its duration is at least the minimum.
  With a positive sample rate the result is ordered and non-overlapping, and with a
  non-negative minimum no interval ends before it starts.
\<close>

theorem detect_silence_regions:
  "detect_silence frame_db P threshold_db m
     = (case audio_data P of
          None \<Rightarrow> []
        | Some buf \<Rightarrow>
            spec_silent_regions (frame_db buf)
              (frames_to_time (length (frame_db buf)) (sample_rate P)) (duration P)
              threshold_db m)
   \<and> (0 < sample_rate P \<longrightarrow> ordered_disjoint (detect_silence frame_db P threshold_db m))
   \<and> (0 \<le> m \<longrightarrow> (\<forall>r \<in> set (detect_silence frame_db P threshold_db m). fst r \<le> snd r))"
proof -
  have eq: "detect_silence frame_db P threshold_db m
     = (case audio_data P of
          None \<Rightarrow> []
        | Some buf \<Rightarrow>
            spec_silent_regions (frame_db buf)
              (frames_to_time (length (frame_db buf)) (sample_rate P)) (duration P)
              threshold_db m)"
    by (simp add: detect_silence_def spec_silent_regions_def Let_def silence_loop_refines(1)
        split: option.splits)
  have ord: "ordered_disjoint (detect_silence frame_db P threshold_db m)" if sr: "0 < sample_rate P"
  proof (cases "audio_data P")
    case None
    then show ?thesis by (simp add: eq ordered_disjoint_def)
  next
    case (Some buf)
    let ?tms = "frames_to_time (length (frame_db buf)) (sample_rate P)"
    let ?zs = "zip (map (\<lambda>d. d < threshold_db) (frame_db buf)) ?tms"
    have "length ?tms = length (frame_db buf)" by (simp add: frames_to_time_def)
    then have "map snd ?zs = ?tms" by (simp add: map_snd_zip)
    then have "sorted_wrt (<) (map snd ?zs)"
      using frames_to_time_increasing[OF sr] by simp
    then have "ordered_disjoint (merged_regions ?zs (duration P))"
      by (rule merged_regions_ordered)
    then show ?thesis
      unfolding eq Some option.case spec_silent_regions_def ordered_disjoint_def
      by (rule sorted_wrt_filter)
  qed
  have wf: "\<forall>r \<in> set (detect_silence frame_db P threshold_db m). fst r \<le> snd r" if m: "0 \<le> m"
  proof (cases "audio_data P")
    case None
    then show ?thesis by (simp add: eq)
  next
    case (Some buf)
    show ?thesis unfolding eq Some option.case spec_silent_regions_def using m by auto
  qed
  show ?thesis using eq ord wf by blast
qed

theorem detect_silence_regions_witness:
  "detect_silence (\<lambda>buf. [- 10, - 50, - 60, - 10, - 70])
       \<lparr>audio_data = Some (Arr1 [0 :: real]), sample_rate = 512, duration = 5, channels = 1,
        filepath = None\<rparr> (- 40) 1
     = [(1, 3), (4, 5)]
   \<and> ordered_disjoint [(1, 3), (4, 5)]"
proof -
  have v: "detect_silence (\<lambda>buf. [- 10, - 50, - 60, - 10, - 70])
       \<lparr>audio_data = Some (Arr1 [0 :: real]), sample_rate = 512, duration = 5, channels = 1,
        filepath = None\<rparr> (- 40) 1
     = [(1, 3), (4, 5)]"
    by (simp add: detect_silence_def frames_to_time_def close_open_region_def Let_def upt_rec)
  have "ordered_disjoint (detect_silence (\<lambda>buf. [- 10, - 50, - 60, - 10, - 70])
       \<lparr>audio_data = Some (Arr1 [0 :: real]), sample_rate = 512, duration = 5, channels = 1,
        filepath = None\<rparr> (- 40) 1)"
    using detect_silence_regions[of "\<lambda>buf. [- 10, - 50, - 60, - 10, - 70]"
       "\<lparr>audio_data = Some (Arr1 [0 :: real]), sample_rate = 512, duration = 5, channels = 1,
        filepath = None\<rparr>" "- 40" 1]
    by (elim conjE) simp
  then show ?thesis using v by simp
qed


end
